theory Spec2Isabelle
  imports Main "HOL-Library.Word"
begin

unbundle bit_operations_syntax

section \<open>Bytes, errors and the byte source\<close>

text \<open>
  Package \<open>cabfile\<close> reads a Microsoft Cabinet file from an \<open>io.ReadSeeker\<close>.
  Go's \<open>uint8\<close>, \<open>uint16\<close> and \<open>uint32\<close> are words of that width; a Go \<open>string\<close>
  and a \<open>[]byte\<close> are lists of bytes.
\<close>

type_synonym byte = "8 word"
type_synonym uint16 = "16 word"
type_synonym uint32 = "32 word"

text \<open>
  Every \<open>return nil, fmt.Errorf(...)\<close> and \<open>errors.New(...)\<close> of \<open>cabfile.go\<close> is one
  constructor, named after the failure and carrying the index the message prints.
  \<open>Panic_SliceBounds\<close> is the run-time panic of a slice expression \<open>b[:2]\<close> whose
  bound exceeds \<open>cap(b)\<close>; \<open>Panic_NilReader\<close> is a method call on a nil interface;
  \<open>EOF\<close> is \<open>io.EOF\<close> as \<open>Next\<close> returns it.
\<close>

datatype error =
    HeaderRead
  | BadSignature
  | ReservedFieldViolation
  | UnsupportedVersion
  | UnsupportedMultiPart
  | FolderRead nat
  | UnsupportedCompression uint16
  | FileRead nat
  | FileNameRead nat
  | FolderIndexOutOfRange
  | DataRead nat
  | TruncatedBlock nat
  | BlockReadError nat
  | SizeMismatch nat
  | BadBlockSignature nat
  | DecompressionFailure nat
  | DecompressionError nat
  | UnsupportedCompressionData
  | FolderDataError uint16 error
  | OffsetOutOfRange
  | FileDataRead
  | FileNotFound "byte list"
  | Panic_SliceBounds
  | Panic_NilReader
  | EOF

subsection \<open>\<open>bytes.Reader\<close>\<close>

text \<open>
  The source handed to \<open>New\<close> by the repository's test is a \<open>bytes.Reader\<close>, and the
  reader \<open>folderData\<close> returns is one too (\<open>bytes.NewReader(buf.Bytes())\<close>).  Its state is
  the byte slice \<open>s\<close> and the cursor \<open>i\<close>.  \<open>Read(b)\<close> with \<open>len(b) = m\<close> returns
  \<open>(0, io.EOF)\<close> when the cursor is at or past the end (also when \<open>m = 0\<close>), and otherwise
  copies \<open>min m (len s - i)\<close> bytes and advances the cursor; \<open>Seek(off, io.SeekStart)\<close> with
  a non-negative offset sets the cursor and cannot fail.
\<close>

record Reader =
  rd_s :: "byte list"
  rd_i :: nat

definition NewReader :: "byte list \<Rightarrow> Reader" where
  "NewReader b = \<lparr>rd_s = b, rd_i = 0\<rparr>"

definition Seek :: "Reader \<Rightarrow> nat \<Rightarrow> Reader" where
  "Seek rd off = rd\<lparr>rd_i := off\<rparr>"

text \<open>\<open>Read rd m\<close> gives the bytes copied, whether the error is \<open>io.EOF\<close>, and the reader after.\<close>

definition Read :: "Reader \<Rightarrow> nat \<Rightarrow> byte list \<times> bool \<times> Reader" where
  "Read rd m =
     (if length (rd_s rd) \<le> rd_i rd then ([], True, rd)
      else let got = take m (drop (rd_i rd) (rd_s rd))
           in (got, False, rd\<lparr>rd_i := rd_i rd + length got\<rparr>))"

subsection \<open>\<open>encoding/binary\<close>, little endian\<close>

text \<open>
  \<open>binary.Read(r, binary.LittleEndian, &v)\<close> fills a buffer of the size of \<open>v\<close> with
  \<open>io.ReadFull\<close> and fails when the source ends first; then it decodes field by field.
  \<open>ReadFull rd m\<close> is \<open>None\<close> on that failure.
\<close>

definition ReadFull :: "Reader \<Rightarrow> nat \<Rightarrow> (byte list \<times> Reader) option" where
  "ReadFull rd m =
     (if rd_i rd + m \<le> length (rd_s rd)
      then Some (take m (drop (rd_i rd) (rd_s rd)), rd\<lparr>rd_i := rd_i rd + m\<rparr>)
      else None)"

definition le16 :: "byte list \<Rightarrow> nat \<Rightarrow> uint16" where
  "le16 b k = ucast (b ! k) OR push_bit 8 (ucast (b ! (k + 1)))"

definition le32 :: "byte list \<Rightarrow> nat \<Rightarrow> uint32" where
  "le32 b k = ucast (b ! k) OR push_bit 8 (ucast (b ! (k + 1)))
     OR push_bit 16 (ucast (b ! (k + 2))) OR push_bit 24 (ucast (b ! (k + 3)))"

section \<open>The on-disk records\<close>

record cfHeader =
  Signature :: "byte list"
  Reserved1 :: uint32
  CBCabinet :: uint32
  Reserved2 :: uint32
  COFFFiles :: uint32
  Reserved3 :: uint32
  VersionMinor :: byte
  VersionMajor :: byte
  CFolders :: uint16
  CFiles :: uint16
  Flags :: uint16
  SetID :: uint16
  ICabinet :: uint16

definition hdrPrevCabinet :: uint16 where "hdrPrevCabinet = 1"
definition hdrNextCabinet :: uint16 where "hdrNextCabinet = 2"
definition hdrReservePresent :: uint16 where "hdrReservePresent = 4"

record cfFolder =
  COFFCabStart :: uint32
  CCFData :: uint16
  TypeCompress :: uint16

definition compMask :: uint16 where "compMask = 0xf"
definition compNone :: uint16 where "compNone = 0x0"
definition compMSZIP :: uint16 where "compMSZIP = 0x1"
definition compQuantum :: uint16 where "compQuantum = 0x2"
definition compLZX :: uint16 where "compLZX = 0x3"

record cfFile =
  CBFile :: uint32
  UOffFolderStart :: uint32
  IFolder :: uint16
  Date :: uint16
  Time :: uint16
  Attribs :: uint16

text \<open>
  \<open>type file struct { *cfFile; name string }\<close>: the embedded record extended by the name
  (\<open>file\<close> is a reserved word of the theory language, so the type is \<open>cab_file\<close>);
  \<open>mk_file f n\<close> is the composite literal \<open>&file{&f, n}\<close>.
\<close>

record cab_file = cfFile +
  name :: "byte list"

definition mk_file :: "cfFile \<Rightarrow> byte list \<Rightarrow> cab_file" where
  "mk_file f n =
     \<lparr>CBFile = CBFile f, UOffFolderStart = UOffFolderStart f, IFolder = IFolder f,
      Date = Date f, Time = Time f, Attribs = Attribs f, name = n\<rparr>"

record cfData =
  Checksum :: uint32
  CBData :: uint16
  CBUncomp :: uint16

text \<open>The sizes \<open>binary.Read\<close> computes for the four structs.\<close>

definition sizeof_cfHeader :: nat where "sizeof_cfHeader = 36"
definition sizeof_cfFolder :: nat where "sizeof_cfFolder = 8"
definition sizeof_cfFile :: nat where "sizeof_cfFile = 16"
definition sizeof_cfData :: nat where "sizeof_cfData = 8"

definition decode_cfHeader :: "byte list \<Rightarrow> cfHeader" where
  "decode_cfHeader b =
     \<lparr>Signature = take 4 b, Reserved1 = le32 b 4, CBCabinet = le32 b 8, Reserved2 = le32 b 12,
      COFFFiles = le32 b 16, Reserved3 = le32 b 20, VersionMinor = b ! 24, VersionMajor = b ! 25,
      CFolders = le16 b 26, CFiles = le16 b 28, Flags = le16 b 30, SetID = le16 b 32,
      ICabinet = le16 b 34\<rparr>"

definition decode_cfFolder :: "byte list \<Rightarrow> cfFolder" where
  "decode_cfFolder b = \<lparr>COFFCabStart = le32 b 0, CCFData = le16 b 4, TypeCompress = le16 b 6\<rparr>"

definition decode_cfFile :: "byte list \<Rightarrow> cfFile" where
  "decode_cfFile b =
     \<lparr>CBFile = le32 b 0, UOffFolderStart = le32 b 4, IFolder = le16 b 8, Date = le16 b 10,
      Time = le16 b 12, Attribs = le16 b 14\<rparr>"

definition decode_cfData :: "byte list \<Rightarrow> cfData" where
  "decode_cfData b = \<lparr>Checksum = le32 b 0, CBData = le16 b 4, CBUncomp = le16 b 6\<rparr>"

section \<open>The Cabinet and \<open>New\<close>\<close>

text \<open>
  \<open>Cabinet\<close> as in the source.  The field \<open>r\<close> is \<open>cab_r\<close> here; it holds the bytes of the
  source only, because \<open>New\<close> and \<open>folderData\<close> both start with an absolute \<open>Seek\<close> on
  \<open>c.r\<close>, so the cursor left by one call is never read by the next.  \<open>nextRdr\<close> is a
  reference: the address of a \<open>bytes.Reader\<close> in the memory below, or \<open>None\<close> for nil.
\<close>

record Cabinet =
  cab_r :: "byte list"
  hdr :: cfHeader
  fldrs :: "cfFolder list"
  files :: "cab_file list"
  nextIdx :: nat
  nextRdr :: "nat option"

definition MSCF :: "byte list" where
  "MSCF = [0x4D, 0x53, 0x43, 0x46]"

text \<open>
  The CFFOLDER loop of \<open>New\<close>: \<open>k\<close> records remain, \<open>i\<close> is the loop counter, \<open>acc\<close> is
  \<open>fldrs\<close>.  The \<open>switch\<close> is on \<open>fldr.TypeCompress & compMask\<close>.
\<close>

fun New_folders :: "Reader \<Rightarrow> nat \<Rightarrow> nat \<Rightarrow> cfFolder list \<Rightarrow> error + (cfFolder list \<times> Reader)" where
  "New_folders rd 0 i acc = Inr (acc, rd)"
| "New_folders rd (Suc k) i acc =
     (case ReadFull rd sizeof_cfFolder of
        None \<Rightarrow> Inl (FolderRead i)
      | Some (b, rd1) \<Rightarrow>
          let fldr = decode_cfFolder b in
          if TypeCompress fldr AND compMask = compNone \<or> TypeCompress fldr AND compMask = compMSZIP
          then New_folders rd1 k (Suc i) (acc @ [fldr])
          else Inl (UnsupportedCompression (TypeCompress fldr)))"

text \<open>
  \<open>bufio.NewReader(r).ReadBytes(delim)\<close> on the rest of the source: the bytes up to and
  including the first \<open>delim\<close>, or \<open>None\<close> (the error \<open>io.EOF\<close>) when there is none.
\<close>

fun ReadBytes :: "byte list \<Rightarrow> byte \<Rightarrow> byte list option" where
  "ReadBytes [] delim = None"
| "ReadBytes (x # xs) delim =
     (if x = delim then Some [x]
      else case ReadBytes xs delim of None \<Rightarrow> None | Some fn \<Rightarrow> Some (x # fn))"

text \<open>
  The CFFILE loop of \<open>New\<close>.  After the fixed record the name is read up to its NUL, the
  source is repositioned to \<open>off + len(fn)\<close>, and the name is \<open>fn\<close> without the NUL.
\<close>

fun New_files :: "Reader \<Rightarrow> nat \<Rightarrow> nat \<Rightarrow> cab_file list \<Rightarrow> error + cab_file list" where
  "New_files rd 0 i acc = Inr acc"
| "New_files rd (Suc k) i acc =
     (case ReadFull rd sizeof_cfFile of
        None \<Rightarrow> Inl (FileRead i)
      | Some (b, rd1) \<Rightarrow>
          let f = decode_cfFile b; off = rd_i rd1 in
          (case ReadBytes (drop off (rd_s rd1)) 0 of
             None \<Rightarrow> Inl (FileNameRead i)
           | Some fn \<Rightarrow>
               New_files (Seek rd1 (off + length fn)) k (Suc i)
                 (acc @ [mk_file f (butlast fn)])))"

definition New :: "byte list \<Rightarrow> error + Cabinet" where
  "New src =
     (let rd = Seek (NewReader src) 0 in
      case ReadFull rd sizeof_cfHeader of
        None \<Rightarrow> Inl HeaderRead
      | Some (b, rd1) \<Rightarrow>
          let h = decode_cfHeader b in
          if Signature h \<noteq> MSCF then Inl BadSignature
          else if Reserved1 h \<noteq> 0 \<or> Reserved2 h \<noteq> 0 \<or> Reserved3 h \<noteq> 0
            then Inl ReservedFieldViolation
          else if VersionMajor h \<noteq> 1 \<or> VersionMinor h \<noteq> 3 then Inl UnsupportedVersion
          else if Flags h AND hdrPrevCabinet \<noteq> 0 \<or> Flags h AND hdrNextCabinet \<noteq> 0
            then Inl UnsupportedMultiPart
          else
            (case New_folders rd1 (unat (CFolders h)) 0 [] of
               Inl e \<Rightarrow> Inl e
             | Inr (fs, rd2) \<Rightarrow>
                 (case New_files (Seek rd2 (unat (COFFFiles h))) (unat (CFiles h)) 0 [] of
                    Inl e \<Rightarrow> Inl e
                  | Inr fl \<Rightarrow>
                      Inr \<lparr>cab_r = src, hdr = h, fldrs = fs, files = fl,
                           nextIdx = 0, nextRdr = None\<rparr>)))"

definition FileList :: "Cabinet \<Rightarrow> byte list list" where
  "FileList c = map name (files c)"

section \<open>Folder decompression: \<open>folderData\<close>\<close>

text \<open>
  \<open>compress/flate\<close> is Go's library, outside the repository: the decoder is a parameter.
  \<open>fl dict input m\<close> is the one call \<open>r.Read(data)\<close> with \<open>len(data) = m\<close> on the reader
  \<open>flate.NewReaderDict(bytes.NewReader(input), dict)\<close>: the bytes it stored into \<open>data\<close>
  and the error it returned.  \<open>flate.NewReader(x)\<close> is the reader with no preset
  dictionary, \<open>fl []\<close>.  An \<open>io.Reader\<close> stores at most \<open>len(data)\<close> bytes, which
  \<open>flate_Read\<close> writes out.
\<close>

datatype read_error = ErrNil | ErrEOF | ErrOther

type_synonym inflate = "byte list \<Rightarrow> byte list \<Rightarrow> nat \<Rightarrow> byte list \<times> read_error"

definition flate_Read :: "inflate \<Rightarrow> byte list \<Rightarrow> byte list \<Rightarrow> nat \<Rightarrow> byte list \<times> read_error" where
  "flate_Read fl dict input m = (take m (fst (fl dict input m)), snd (fl dict input m))"

definition CK :: "byte list" where
  "CK = [0x43, 0x4B]"

text \<open>
  The block loop of \<open>folderData\<close>: \<open>k\<close> blocks remain, \<open>i\<close> is the loop counter, \<open>rd\<close> is
  \<open>c.r\<close>, \<open>tc\<close> is \<open>fldr.TypeCompress\<close> (the \<open>switch\<close> is on the whole field), and
  \<open>history\<close> and \<open>buf\<close> are the loop's two variables.  \<open>block\<close> is made with length and
  capacity \<open>d.CBData\<close>, so \<open>block[:2]\<close> panics when \<open>d.CBData < 2\<close>.
\<close>

fun folderData_blocks ::
  "inflate \<Rightarrow> uint16 \<Rightarrow> Reader \<Rightarrow> nat \<Rightarrow> nat \<Rightarrow> byte list \<Rightarrow> byte list \<Rightarrow> error + byte list" where
  "folderData_blocks fl tc rd 0 i history buf = Inr buf"
| "folderData_blocks fl tc rd (Suc k) i history buf =
     (case ReadFull rd sizeof_cfData of
        None \<Rightarrow> Inl (DataRead i)
      | Some (b, rd1) \<Rightarrow>
          let d = decode_cfData b in
          (case Read rd1 (unat (CBData d)) of
             (block, eof, rd2) \<Rightarrow>
               if length block \<noteq> unat (CBData d) then Inl (TruncatedBlock i)
               else if eof then Inl (BlockReadError i)
               else if tc = compNone then
                 (if CBData d \<noteq> CBUncomp d then Inl (SizeMismatch i)
                  else folderData_blocks fl tc rd2 k (Suc i) history (buf @ block))
               else if tc = compMSZIP then
                 (if unat (CBData d) < 2 then Inl Panic_SliceBounds
                  else if take 2 block \<noteq> CK then Inl (BadBlockSignature i)
                  else
                    (case (if length history = 0
                           then flate_Read fl [] (drop 2 block) (unat (CBUncomp d))
                           else flate_Read fl history (drop 2 block) (unat (CBUncomp d))) of
                       (data, err) \<Rightarrow>
                         if length data \<noteq> unat (CBUncomp d) then Inl (DecompressionFailure i)
                         else if err \<noteq> ErrNil \<and> err \<noteq> ErrEOF then Inl (DecompressionError i)
                         else folderData_blocks fl tc rd2 k (Suc i) data (buf @ data)))
               else Inl UnsupportedCompressionData))"

text \<open>The result is the content of the \<open>bytes.Reader\<close> that \<open>folderData\<close> returns.\<close>

definition folderData :: "inflate \<Rightarrow> Cabinet \<Rightarrow> uint16 \<Rightarrow> error + byte list" where
  "folderData fl c idx =
     (if length (fldrs c) \<le> unat idx then Inl FolderIndexOutOfRange
      else
        let fldr = fldrs c ! unat idx in
        folderData_blocks fl (TypeCompress fldr)
          (Seek (NewReader (cab_r c)) (unat (COFFCabStart fldr)))
          (unat (CCFData fldr)) 0 [] [])"

section \<open>Random access: \<open>Content\<close>\<close>

text \<open>
  The \<open>for _, f := range c.files\<close> loop of \<open>Content\<close>; the first entry whose name
  matches returns.  The result is the content of the returned \<open>bytes.NewReader(blob)\<close>.
\<close>

fun Content_files :: "inflate \<Rightarrow> Cabinet \<Rightarrow> cab_file list \<Rightarrow> byte list \<Rightarrow> error + byte list" where
  "Content_files fl c [] nm = Inl (FileNotFound nm)"
| "Content_files fl c (f # fs) nm =
     (if name f \<noteq> nm then Content_files fl c fs nm
      else
        (case folderData fl c (IFolder f) of
           Inl e \<Rightarrow> Inl (FolderDataError (IFolder f) e)
         | Inr buf \<Rightarrow>
             (case Read (Seek (NewReader buf) (unat (UOffFolderStart f))) (unat (CBFile f)) of
                (blob, eof, rd) \<Rightarrow>
                  if length blob \<noteq> unat (CBFile f) then Inl OffsetOutOfRange
                  else if eof then Inl FileDataRead
                  else Inr blob)))"

definition Content :: "inflate \<Rightarrow> Cabinet \<Rightarrow> byte list \<Rightarrow> error + byte list" where
  "Content fl c nm = Content_files fl c (files c) nm"

section \<open>Sequential access: \<open>Next\<close>\<close>












section \<open>Version comparison: \<open>lvfscab.CompareVersions\<close>\<close>

text \<open>
  Modelled from the spec: \<open>semver.Make\<close> and \<open>Version.Compare\<close> of the package
  \<open>github.com/blang/semver\<close>, which \<open>lvfscab.go\<close> imports and which is not part of
  the repository.  The specification's words: parse the input as a three-component
  "major.minor.patch"-style structured version; order two of them component-wise
  numerically, left to right.
\<close>

record Version =
  Major :: nat
  Minor :: nat
  Patch :: nat

fun split_dot :: "string \<Rightarrow> string list" where
  "split_dot [] = [[]]"
| "split_dot (x # xs) =
     (if x = CHR ''.'' then [] # split_dot xs
      else (case split_dot xs of [] \<Rightarrow> [[x]] | p # ps \<Rightarrow> (x # p) # ps))"

definition is_digit :: "char \<Rightarrow> bool" where
  "is_digit ch = (48 \<le> (of_char ch :: nat) \<and> (of_char ch :: nat) \<le> 57)"

definition is_number :: "string \<Rightarrow> bool" where
  "is_number s = (s \<noteq> [] \<and> list_all is_digit s)"

definition number_of :: "string \<Rightarrow> nat" where
  "number_of s = foldl (\<lambda>n ch. 10 * n + (of_char ch - 48)) 0 s"

definition semver_Make :: "string \<Rightarrow> Version option" where
  "semver_Make s =
     (case split_dot s of
        [a, b, c] \<Rightarrow>
          if is_number a \<and> is_number b \<and> is_number c
          then Some \<lparr>Major = number_of a, Minor = number_of b, Patch = number_of c\<rparr>
          else None
      | _ \<Rightarrow> None)"

definition Version_Compare :: "Version \<Rightarrow> Version \<Rightarrow> int" where
  "Version_Compare v o' =
     (if Major v \<noteq> Major o' then (if Major v > Major o' then 1 else -1)
      else if Minor v \<noteq> Minor o' then (if Minor v > Minor o' then 1 else -1)
      else if Patch v \<noteq> Patch o' then (if Patch v > Patch o' then 1 else -1)
      else 0)"

text \<open>
  Go's \<open>strings.Compare(a, b)\<close>: \<open>0\<close> if \<open>a == b\<close>, \<open>-1\<close> if \<open>a < b\<close>, \<open>+1\<close> otherwise,
  where \<open><\<close> on strings is the byte-wise lexicographic order \<open>string_less\<close>.
\<close>

fun string_less :: "string \<Rightarrow> string \<Rightarrow> bool" where
  "string_less [] [] = False"
| "string_less [] (y # ys) = True"
| "string_less (x # xs) [] = False"
| "string_less (x # xs) (y # ys) =
     ((of_char x :: nat) < of_char y \<or> (x = y \<and> string_less xs ys))"

definition strings_Compare :: "string \<Rightarrow> string \<Rightarrow> int" where
  "strings_Compare a b = (if a = b then 0 else if string_less a b then -1 else 1)"

text \<open>\<open>CompareVersions\<close> of \<open>lvfscab.go\<close>.\<close>

definition CompareVersions :: "string \<Rightarrow> string \<Rightarrow> int" where
  "CompareVersions v1 v2 =
     (case (semver_Make v1, semver_Make v2) of
        (Some s1, Some s2) \<Rightarrow> Version_Compare s1 s2
      | _ \<Rightarrow> strings_Compare v1 v2)"

section \<open>The folder layout, as the specification words it\<close>

text \<open>
  A data block is its fixed-size header followed by \<open>CBData\<close> payload bytes, and a
  folder's blocks lie one after the other from \<open>COFFCabStart\<close>.  \<open>raw_blocks rd k\<close> are the
  first \<open>k\<close> blocks the source delivers from the cursor on, as far as they are complete;
  no decompression is involved.
\<close>

type_synonym block = "cfData \<times> byte list"

fun raw_blocks :: "Reader \<Rightarrow> nat \<Rightarrow> block list" where
  "raw_blocks rd 0 = []"
| "raw_blocks rd (Suc k) =
     (case ReadFull rd sizeof_cfData of
        None \<Rightarrow> []
      | Some (b, rd1) \<Rightarrow>
          (case Read rd1 (unat (CBData (decode_cfData b))) of
             (block, eof, rd2) \<Rightarrow>
               if length block = unat (CBData (decode_cfData b)) \<and> \<not> eof
               then (decode_cfData b, block) # raw_blocks rd2 k
               else []))"

definition folder_blocks :: "Cabinet \<Rightarrow> uint16 \<Rightarrow> block list" where
  "folder_blocks c idx =
     raw_blocks (Seek (NewReader (cab_r c)) (unat (COFFCabStart (fldrs c ! unat idx))))
       (unat (CCFData (fldrs c ! unat idx)))"

definition counts_match :: "block \<Rightarrow> bool" where
  "counts_match blk = (CBData (fst blk) = CBUncomp (fst blk))"

text \<open>
  The deflate-based scheme in the specification's words: the payload after the 2-byte
  signature is decoded with the previous block's output as dictionary (\<open>dict\<close>, empty for
  the first block); a block is in order when it carries the signature, the decoder yields
  exactly \<open>CBUncomp\<close> bytes and reports no error other than the end of the stream.
\<close>

definition mszip_out :: "inflate \<Rightarrow> byte list \<Rightarrow> block \<Rightarrow> byte list \<times> read_error" where
  "mszip_out fl dict blk = flate_Read fl dict (drop 2 (snd blk)) (unat (CBUncomp (fst blk)))"

fun mszip_outputs :: "inflate \<Rightarrow> byte list \<Rightarrow> block list \<Rightarrow> byte list list" where
  "mszip_outputs fl dict [] = []"
| "mszip_outputs fl dict (blk # bs) =
     fst (mszip_out fl dict blk) # mszip_outputs fl (fst (mszip_out fl dict blk)) bs"

definition block_ok :: "inflate \<Rightarrow> byte list \<Rightarrow> block \<Rightarrow> bool" where
  "block_ok fl dict blk =
     (2 \<le> length (snd blk) \<and> take 2 (snd blk) = CK \<and>
      length (fst (mszip_out fl dict blk)) = unat (CBUncomp (fst blk)) \<and>
      (snd (mszip_out fl dict blk) = ErrNil \<or> snd (mszip_out fl dict blk) = ErrEOF))"

fun mszip_blocks_ok :: "inflate \<Rightarrow> byte list \<Rightarrow> block list \<Rightarrow> bool" where
  "mszip_blocks_ok fl dict [] = True"
| "mszip_blocks_ok fl dict (blk # bs) =
     (block_ok fl dict blk \<and> mszip_blocks_ok fl (fst (mszip_out fl dict blk)) bs)"

text \<open>
  What "readable" means for the tables \<open>New\<close> parses: the folder records follow the
  header and fit into the source, each with a supported low-4-bit compression tag; each
  file record fits and is followed by a name that ends in a NUL.
\<close>

definition folder_at :: "byte list \<Rightarrow> nat \<Rightarrow> cfFolder" where
  "folder_at src i =
     decode_cfFolder (take sizeof_cfFolder (drop (sizeof_cfHeader + sizeof_cfFolder * i) src))"

definition supported :: "cfFolder \<Rightarrow> bool" where
  "supported fldr =
     (TypeCompress fldr AND compMask = compNone \<or> TypeCompress fldr AND compMask = compMSZIP)"

definition folders_readable :: "byte list \<Rightarrow> nat \<Rightarrow> bool" where
  "folders_readable src n =
     (sizeof_cfHeader + sizeof_cfFolder * n \<le> length src \<and>
      list_all supported (map (folder_at src) [0..<n]))"

fun files_readable :: "byte list \<Rightarrow> nat \<Rightarrow> nat \<Rightarrow> bool" where
  "files_readable src pos 0 = True"
| "files_readable src pos (Suc k) =
     (pos + sizeof_cfFile \<le> length src \<and>
      (case ReadBytes (drop (pos + sizeof_cfFile) src) 0 of
         None \<Rightarrow> False
       | Some fn \<Rightarrow> files_readable src (pos + sizeof_cfFile + length fn) k))"






text \<open>The byte range \<open>[fileOffset, fileOffset + fileSize)\<close> of a folder buffer.\<close>

definition file_range :: "cab_file \<Rightarrow> byte list \<Rightarrow> byte list" where
  "file_range f buf = take (unat (CBFile f)) (drop (unat (UOffFolderStart f)) buf)"

section \<open>Concrete inputs\<close>

text \<open>
  A stand-in for the decoder, to run the model on concrete folders: it emits the
  dictionary followed by the input, so its output shows which dictionary it was given.
\<close>

definition copy_inflate :: inflate where
  "copy_inflate dict input m =
     (take m (dict @ input), if length (dict @ input) \<le> m then ErrEOF else ErrNil)"

text \<open>
  Archives as byte sources.  Each is a header (36 bytes), the folder records, the file
  records with their names, and the data blocks, one line per record; next to it stands
  the Cabinet that \<open>New\<close> parses from it.
\<close>

definition hdr_of :: "uint32 \<Rightarrow> uint32 \<Rightarrow> uint16 \<Rightarrow> uint16 \<Rightarrow> cfHeader" where
  "hdr_of cb coff nfolders nfiles =
     \<lparr>Signature = MSCF, Reserved1 = 0, CBCabinet = cb, Reserved2 = 0, COFFFiles = coff,
      Reserved3 = 0, VersionMinor = 3, VersionMajor = 1, CFolders = nfolders, CFiles = nfiles,
      Flags = 0, SetID = 0, ICabinet = 0\<rparr>"

definition cab_of :: "byte list \<Rightarrow> cfHeader \<Rightarrow> cfFolder list \<Rightarrow> cab_file list \<Rightarrow> Cabinet" where
  "cab_of src h fs fl =
     \<lparr>cab_r = src, hdr = h, fldrs = fs, files = fl, nextIdx = 0, nextRdr = None\<rparr>"

text \<open>
  One stored folder of two blocks, \<open>ab\<close> and \<open>c\<close>; in \<open>src_none_bad\<close> the second block
  declares 2 uncompressed bytes.
\<close>

definition src_none :: "byte list" where
  "src_none =
     [0x4D, 0x53, 0x43, 0x46, 0, 0, 0, 0, 0x3F, 0, 0, 0, 0, 0, 0, 0, 0x2C, 0, 0, 0, 0, 0,
      0, 0, 3, 1, 1, 0, 0, 0, 0, 0, 0, 0, 0, 0,
      0x2C, 0, 0, 0, 2, 0, 0, 0,
      0, 0, 0, 0, 2, 0, 2, 0, 0x61, 0x62,
      0, 0, 0, 0, 1, 0, 1, 0, 0x63]"

definition src_none_bad :: "byte list" where
  "src_none_bad =
     [0x4D, 0x53, 0x43, 0x46, 0, 0, 0, 0, 0x3F, 0, 0, 0, 0, 0, 0, 0, 0x2C, 0, 0, 0, 0, 0,
      0, 0, 3, 1, 1, 0, 0, 0, 0, 0, 0, 0, 0, 0,
      0x2C, 0, 0, 0, 2, 0, 0, 0,
      0, 0, 0, 0, 2, 0, 2, 0, 0x61, 0x62,
      0, 0, 0, 0, 1, 0, 2, 0, 0x63]"

definition fldr_none :: cfFolder where
  "fldr_none = \<lparr>COFFCabStart = 44, CCFData = 2, TypeCompress = compNone\<rparr>"

definition cab_none :: Cabinet where
  "cab_none = cab_of src_none (hdr_of 63 44 1 0) [fldr_none] []"

definition cab_none_bad :: Cabinet where
  "cab_none_bad = cab_of src_none_bad (hdr_of 63 44 1 0) [fldr_none] []"

text \<open>
  One MS-ZIP folder of two blocks, \<open>CK 01 02\<close> declaring 2 bytes and \<open>CK 03\<close> declaring 3;
  in \<open>src_mszip_short\<close> the second block declares 4.
\<close>

definition src_mszip :: "byte list" where
  "src_mszip =
     [0x4D, 0x53, 0x43, 0x46, 0, 0, 0, 0, 0x43, 0, 0, 0, 0, 0, 0, 0, 0x2C, 0, 0, 0, 0, 0,
      0, 0, 3, 1, 1, 0, 0, 0, 0, 0, 0, 0, 0, 0,
      0x2C, 0, 0, 0, 2, 0, 1, 0,
      0, 0, 0, 0, 4, 0, 2, 0, 0x43, 0x4B, 1, 2,
      0, 0, 0, 0, 3, 0, 3, 0, 0x43, 0x4B, 3]"

definition src_mszip_short :: "byte list" where
  "src_mszip_short =
     [0x4D, 0x53, 0x43, 0x46, 0, 0, 0, 0, 0x43, 0, 0, 0, 0, 0, 0, 0, 0x2C, 0, 0, 0, 0, 0,
      0, 0, 3, 1, 1, 0, 0, 0, 0, 0, 0, 0, 0, 0,
      0x2C, 0, 0, 0, 2, 0, 1, 0,
      0, 0, 0, 0, 4, 0, 2, 0, 0x43, 0x4B, 1, 2,
      0, 0, 0, 0, 3, 0, 4, 0, 0x43, 0x4B, 3]"

definition fldr_mszip :: cfFolder where
  "fldr_mszip = \<lparr>COFFCabStart = 44, CCFData = 2, TypeCompress = compMSZIP\<rparr>"

definition cab_mszip :: Cabinet where
  "cab_mszip = cab_of src_mszip (hdr_of 67 44 1 0) [fldr_mszip] []"

definition cab_mszip_short :: Cabinet where
  "cab_mszip_short = cab_of src_mszip_short (hdr_of 67 44 1 0) [fldr_mszip] []"

text \<open>One MS-ZIP folder of one block whose payload is the single byte \<open>C\<close>.\<close>

definition src_short_payload :: "byte list" where
  "src_short_payload =
     [0x4D, 0x53, 0x43, 0x46, 0, 0, 0, 0, 0x35, 0, 0, 0, 0, 0, 0, 0, 0x2C, 0, 0, 0, 0, 0,
      0, 0, 3, 1, 1, 0, 0, 0, 0, 0, 0, 0, 0, 0,
      0x2C, 0, 0, 0, 1, 0, 1, 0,
      0, 0, 0, 0, 1, 0, 5, 0, 0x43]"

definition cab_short_payload :: Cabinet where
  "cab_short_payload =
     cab_of src_short_payload (hdr_of 53 44 1 0)
       [\<lparr>COFFCabStart = 44, CCFData = 1, TypeCompress = compMSZIP\<rparr>] []"

text \<open>
  Two stored folders, \<open>abc\<close> and \<open>de\<close>, and four files: \<open>a\<close> (folder 0, bytes 0..1), \<open>b\<close>
  (folder 0, byte 2), a second \<open>a\<close> (folder 1, bytes 0..1) and the empty file \<open>z\<close> at the
  end of folder 1.
\<close>

definition src_two :: "byte list" where
  "src_two =
     [0x4D, 0x53, 0x43, 0x46, 0, 0, 0, 0, 0x91, 0, 0, 0, 0, 0, 0, 0, 0x34, 0, 0, 0, 0, 0,
      0, 0, 3, 1, 2, 0, 4, 0, 0, 0, 0, 0, 0, 0,
      0x7C, 0, 0, 0, 1, 0, 0, 0,
      0x87, 0, 0, 0, 1, 0, 0, 0,
      2, 0, 0, 0, 0, 0, 0, 0, 0, 0, 0, 0, 0, 0, 0, 0, 0x61, 0,
      1, 0, 0, 0, 2, 0, 0, 0, 0, 0, 0, 0, 0, 0, 0, 0, 0x62, 0,
      2, 0, 0, 0, 0, 0, 0, 0, 1, 0, 0, 0, 0, 0, 0, 0, 0x61, 0,
      0, 0, 0, 0, 2, 0, 0, 0, 1, 0, 0, 0, 0, 0, 0, 0, 0x7A, 0,
      0, 0, 0, 0, 3, 0, 3, 0, 0x61, 0x62, 0x63,
      0, 0, 0, 0, 2, 0, 2, 0, 0x64, 0x65]"

definition file_a :: cab_file where
  "file_a = \<lparr>CBFile = 2, UOffFolderStart = 0, IFolder = 0, Date = 0, Time = 0, Attribs = 0,
             name = [0x61]\<rparr>"

definition file_b :: cab_file where
  "file_b = \<lparr>CBFile = 1, UOffFolderStart = 2, IFolder = 0, Date = 0, Time = 0, Attribs = 0,
             name = [0x62]\<rparr>"

definition file_a2 :: cab_file where
  "file_a2 = \<lparr>CBFile = 2, UOffFolderStart = 0, IFolder = 1, Date = 0, Time = 0, Attribs = 0,
              name = [0x61]\<rparr>"

definition file_z :: cab_file where
  "file_z = \<lparr>CBFile = 0, UOffFolderStart = 2, IFolder = 1, Date = 0, Time = 0, Attribs = 0,
             name = [0x7A]\<rparr>"

definition cab_two :: Cabinet where
  "cab_two =
     cab_of src_two (hdr_of 145 52 2 4)
       [\<lparr>COFFCabStart = 124, CCFData = 1, TypeCompress = compNone\<rparr>,
        \<lparr>COFFCabStart = 135, CCFData = 1, TypeCompress = compNone\<rparr>]
       [file_a, file_b, file_a2, file_z]"

text \<open>
  One stored folder \<open>abc\<close> and one file \<open>a\<close>; \<open>src_badmagic\<close> differs in the first byte
  of the signature.
\<close>

definition src_valid :: "byte list" where
  "src_valid =
     [0x4D, 0x53, 0x43, 0x46, 0, 0, 0, 0, 0x49, 0, 0, 0, 0, 0, 0, 0, 0x2C, 0, 0, 0, 0, 0,
      0, 0, 3, 1, 1, 0, 1, 0, 0, 0, 0, 0, 0, 0,
      0x3E, 0, 0, 0, 1, 0, 0, 0,
      3, 0, 0, 0, 0, 0, 0, 0, 0, 0, 0, 0, 0, 0, 0, 0, 0x61, 0,
      0, 0, 0, 0, 3, 0, 3, 0, 0x61, 0x62, 0x63]"

definition src_badmagic :: "byte list" where
  "src_badmagic = 0x4E # tl src_valid"

text \<open>
  One folder whose compression field is \<open>0x0010\<close> (low four bits: none), of one block of
  one byte.
\<close>

definition src_highbits :: "byte list" where
  "src_highbits =
     [0x4D, 0x53, 0x43, 0x46, 0, 0, 0, 0, 0x35, 0, 0, 0, 0, 0, 0, 0, 0x2C, 0, 0, 0, 0, 0,
      0, 0, 3, 1, 1, 0, 0, 0, 0, 0, 0, 0, 0, 0,
      0x2C, 0, 0, 0, 1, 0, 0x10, 0,
      0, 0, 0, 0, 1, 0, 1, 0, 0x61]"

text \<open>One MS-ZIP folder of one block whose payload starts with \<open>KC\<close>.\<close>

definition src_badsig :: "byte list" where
  "src_badsig =
     [0x4D, 0x53, 0x43, 0x46, 0, 0, 0, 0, 0x37, 0, 0, 0, 0, 0, 0, 0, 0x2C, 0, 0, 0, 0, 0,
      0, 0, 3, 1, 1, 0, 0, 0, 0, 0, 0, 0, 0, 0,
      0x2C, 0, 0, 0, 1, 0, 1, 0,
      0, 0, 0, 0, 3, 0, 1, 0, 0x4B, 0x43, 1]"

definition cab_badsig :: Cabinet where
  "cab_badsig =
     cab_of src_badsig (hdr_of 55 44 1 0)
       [\<lparr>COFFCabStart = 44, CCFData = 1, TypeCompress = compMSZIP\<rparr>] []"



section \<open>Facts about the block loop\<close>

lemma NewReader_simps: "rd_s (NewReader b) = b" "rd_i (NewReader b) = 0"
  by (simp_all add: NewReader_def)

text \<open>The concrete Cabinets are what \<open>New\<close> parses from the concrete archives.\<close>

lemma New_concrete:
  "New src_none = Inr cab_none"
  "New src_none_bad = Inr cab_none_bad"
  "New src_mszip = Inr cab_mszip"
  "New src_mszip_short = Inr cab_mszip_short"
  "New src_short_payload = Inr cab_short_payload"
  "New src_two = Inr cab_two"
  "New src_badsig = Inr cab_badsig"
  by code_simp+

lemma comp_neq: "compMSZIP \<noteq> compNone"
  by (simp add: compMSZIP_def compNone_def)

lemma folderData_in_range:
  "unat idx < length (fldrs c) \<Longrightarrow>
   folderData fl c idx =
     folderData_blocks fl (TypeCompress (fldrs c ! unat idx))
       (Seek (NewReader (cab_r c)) (unat (COFFCabStart (fldrs c ! unat idx))))
       (unat (CCFData (fldrs c ! unat idx))) 0 [] []"
  by (simp add: folderData_def Let_def)

subsection \<open>Stored folders\<close>

lemma first_mismatch:
  assumes "\<not> list_all counts_match bs"
  obtains pre blk post where "bs = pre @ blk # post" "list_all counts_match pre" "\<not> counts_match blk"
proof -
  from assms have "\<exists>x\<in>set bs. \<not> counts_match x"
    by (simp add: list_all_iff)
  from split_list_first_prop[OF this]
  obtain pre blk post where "bs = pre @ blk # post" "\<not> counts_match blk"
    "\<forall>y\<in>set pre. \<not> \<not> counts_match y"
    by blast
  then show ?thesis
    using that by (simp add: list_all_iff)
qed

lemma none_blocks_Inr:
  "folderData_blocks fl compNone rd k i history buf = Inr out \<longleftrightarrow>
     length (raw_blocks rd k) = k \<and> list_all counts_match (raw_blocks rd k) \<and>
     out = buf @ concat (map snd (raw_blocks rd k))"
proof (induction k arbitrary: rd i history buf)
  case 0
  show ?case by auto
next
  case (Suc k)
  show ?case
    by (auto simp: Suc counts_match_def Let_def split: option.splits prod.splits)
qed

lemma none_blocks_mismatch:
  "raw_blocks rd k = pre @ blk # post \<Longrightarrow> list_all counts_match pre \<Longrightarrow>
   \<not> counts_match blk \<Longrightarrow>
   folderData_blocks fl compNone rd k i history buf = Inl (SizeMismatch (i + length pre))"
proof (induction k arbitrary: rd i history buf pre)
  case 0
  then show ?case by simp
next
  case (Suc k)
  show ?case
  proof (cases pre)
    case Nil
    with Suc.prems show ?thesis
      by (auto simp: counts_match_def Let_def split: option.splits prod.splits if_splits)
  next
    case (Cons p pre')
    with Suc.prems show ?thesis
      by (auto simp: Suc.IH counts_match_def Let_def split: option.splits prod.splits if_splits)
  qed
qed

text \<open>
  C5.  For a folder whose compression field is \<open>compNone\<close>, \<open>folderData\<close> returns a buffer
  exactly when all \<open>CCFData\<close> blocks are delivered by the source and each has equal
  compressed and uncompressed counts, and the buffer is then the concatenation of the raw
  payloads in order; the first block whose two counts differ makes \<open>folderData\<close> fail
  with \<open>SizeMismatch\<close> at that block's index; so whenever some delivered block has
  differing counts, \<open>folderData\<close> fails with \<open>SizeMismatch\<close>.
\<close>

theorem folderData_none_concat:
  assumes "unat idx < length (fldrs c)"
    and "TypeCompress (fldrs c ! unat idx) = compNone"
  shows "(\<forall>out. folderData fl c idx = Inr out \<longleftrightarrow>
            length (folder_blocks c idx) = unat (CCFData (fldrs c ! unat idx)) \<and>
            list_all counts_match (folder_blocks c idx) \<and>
            out = concat (map snd (folder_blocks c idx))) \<and>
         (\<forall>pre blk post.
            folder_blocks c idx = pre @ blk # post \<and> list_all counts_match pre \<and>
            \<not> counts_match blk \<longrightarrow>
            folderData fl c idx = Inl (SizeMismatch (length pre))) \<and>
         (\<not> list_all counts_match (folder_blocks c idx) \<longrightarrow>
            (\<exists>i<length (folder_blocks c idx). folderData fl c idx = Inl (SizeMismatch i)))"
proof (intro conjI allI impI)
  fix out
  show "folderData fl c idx = Inr out \<longleftrightarrow>
            length (folder_blocks c idx) = unat (CCFData (fldrs c ! unat idx)) \<and>
            list_all counts_match (folder_blocks c idx) \<and>
            out = concat (map snd (folder_blocks c idx))"
    using assms by (simp add: folderData_in_range folder_blocks_def none_blocks_Inr)
next
  fix pre blk post
  assume "folder_blocks c idx = pre @ blk # post \<and> list_all counts_match pre \<and>
    \<not> counts_match blk"
  then show "folderData fl c idx = Inl (SizeMismatch (length pre))"
    using assms none_blocks_mismatch[of _ _ pre blk post fl 0 "[]" "[]"]
    by (simp add: folderData_in_range folder_blocks_def)
next
  assume "\<not> list_all counts_match (folder_blocks c idx)"
  from first_mismatch[OF this]
  obtain pre blk post where sp: "folder_blocks c idx = pre @ blk # post"
    and ok: "list_all counts_match pre" and bad: "\<not> counts_match blk"
    by blast
  from sp have rb:
    "raw_blocks (Seek (NewReader (cab_r c)) (unat (COFFCabStart (fldrs c ! unat idx))))
       (unat (CCFData (fldrs c ! unat idx))) = pre @ blk # post"
    by (simp add: folder_blocks_def)
  have "folderData fl c idx = Inl (SizeMismatch (length pre))"
    using assms none_blocks_mismatch[OF rb ok bad, of fl 0 "[]" "[]"]
    by (simp add: folderData_in_range)
  moreover have "length pre < length (folder_blocks c idx)"
    by (simp add: sp)
  ultimately show "\<exists>i<length (folder_blocks c idx). folderData fl c idx = Inl (SizeMismatch i)"
    by blast
qed

theorem folderData_none_concat_witness:
  "New src_none = Inr cab_none \<and>
   folderData copy_inflate cab_none 0 = Inr [0x61, 0x62, 0x63] \<and>
   New src_none_bad = Inr cab_none_bad \<and>
   folderData copy_inflate cab_none_bad 0 = Inl (SizeMismatch 1)"
proof -
  have r1: "unat (0 :: uint16) < length (fldrs cab_none)"
    and r2: "unat (0 :: uint16) < length (fldrs cab_none_bad)"
    by code_simp+
  have t1: "TypeCompress (fldrs cab_none ! unat (0 :: uint16)) = compNone"
    and t2: "TypeCompress (fldrs cab_none_bad ! unat (0 :: uint16)) = compNone"
    by code_simp+
  have b1: "folder_blocks cab_none 0 =
      [(\<lparr>Checksum = 0, CBData = 2, CBUncomp = 2\<rparr>, [0x61, 0x62]),
       (\<lparr>Checksum = 0, CBData = 1, CBUncomp = 1\<rparr>, [0x63])]"
    by code_simp
  have b2: "folder_blocks cab_none_bad 0 =
      [(\<lparr>Checksum = 0, CBData = 2, CBUncomp = 2\<rparr>, [0x61, 0x62])] @
       (\<lparr>Checksum = 0, CBData = 1, CBUncomp = 2\<rparr>, [0x63]) # []"
    by code_simp
  have n: "unat (CCFData (fldrs cab_none ! unat (0 :: uint16))) = 2"
    by code_simp
  have "folderData copy_inflate cab_none 0 = Inr [0x61, 0x62, 0x63]"
    unfolding folderData_none_concat[OF r1 t1, of copy_inflate, THEN conjunct1, THEN spec] b1 n
    by (simp add: counts_match_def)
  moreover
  have "folderData copy_inflate cab_none_bad 0 = Inl (SizeMismatch 1)"
    using folderData_none_concat[OF r2 t2, of copy_inflate, THEN conjunct2, THEN conjunct1,
          THEN spec, THEN spec, THEN spec,
          of "[(\<lparr>Checksum = 0, CBData = 2, CBUncomp = 2\<rparr>, [0x61, 0x62])]"
             "(\<lparr>Checksum = 0, CBData = 1, CBUncomp = 2\<rparr>, [0x63])" "[]"] b2
    by (simp add: counts_match_def)
  ultimately show ?thesis by (simp add: New_concrete)
qed

subsection \<open>MS-ZIP folders\<close>

lemma mszip_step:
  "folderData_blocks fl compMSZIP rd (Suc k) i history buf =
     (case ReadFull rd sizeof_cfData of
        None \<Rightarrow> Inl (DataRead i)
      | Some (b, rd1) \<Rightarrow>
          (case Read rd1 (unat (CBData (decode_cfData b))) of
             (block, eof, rd2) \<Rightarrow>
               if length block \<noteq> unat (CBData (decode_cfData b)) then Inl (TruncatedBlock i)
               else if eof then Inl (BlockReadError i)
               else if length block < 2 then Inl Panic_SliceBounds
               else if take 2 block \<noteq> CK then Inl (BadBlockSignature i)
               else if \<not> block_ok fl history (decode_cfData b, block) then
                 (if length (fst (mszip_out fl history (decode_cfData b, block)))
                       \<noteq> unat (CBUncomp (decode_cfData b))
                  then Inl (DecompressionFailure i) else Inl (DecompressionError i))
               else folderData_blocks fl compMSZIP rd2 k (Suc i)
                      (fst (mszip_out fl history (decode_cfData b, block)))
                      (buf @ fst (mszip_out fl history (decode_cfData b, block)))))"
  by (auto simp: Let_def comp_neq block_ok_def mszip_out_def split: option.splits prod.splits)

lemma mszip_blocks_Inr:
  "folderData_blocks fl compMSZIP rd k i history buf = Inr out \<longleftrightarrow>
     length (raw_blocks rd k) = k \<and> mszip_blocks_ok fl history (raw_blocks rd k) \<and>
     out = buf @ concat (mszip_outputs fl history (raw_blocks rd k))"
proof (induction k arbitrary: rd i history buf)
  case 0
  show ?case by auto
next
  case (Suc k)
  show ?case
    unfolding mszip_step
    by (auto simp: Suc block_ok_def split: option.splits prod.splits)
qed

lemma raw_blocks_Cons:
  assumes "raw_blocks rd (Suc k) = p # ps"
  obtains b rd1 block rd2 where "ReadFull rd sizeof_cfData = Some (b, rd1)"
    and "Read rd1 (unat (CBData (decode_cfData b))) = (block, False, rd2)"
    and "length block = unat (CBData (decode_cfData b))"
    and "p = (decode_cfData b, block)" and "ps = raw_blocks rd2 k"
  using assms by (auto split: option.splits prod.splits if_splits)

lemma mszip_blocks_fail:
  assumes "raw_blocks rd k = pre @ blk # post" and "mszip_blocks_ok fl history pre"
  shows "folderData_blocks fl compMSZIP rd k i history buf =
     (let dict = last (history # mszip_outputs fl history pre) in
      if length (snd blk) < 2 then Inl Panic_SliceBounds
      else if take 2 (snd blk) \<noteq> CK then Inl (BadBlockSignature (i + length pre))
      else if length (fst (mszip_out fl dict blk)) \<noteq> unat (CBUncomp (fst blk))
        then Inl (DecompressionFailure (i + length pre))
      else if \<not> block_ok fl dict blk then Inl (DecompressionError (i + length pre))
      else folderData_blocks fl compMSZIP rd k i history buf)"
  using assms
proof (induction k arbitrary: rd i history buf pre)
  case 0
  then show ?case by simp
next
  case (Suc k)
  show ?case
  proof (cases pre)
    case Nil
    with Suc.prems have "raw_blocks rd (Suc k) = blk # post" by simp
    then obtain b rd1 block rd2 where r1: "ReadFull rd sizeof_cfData = Some (b, rd1)"
      and r2: "Read rd1 (unat (CBData (decode_cfData b))) = (block, False, rd2)"
      and len: "length block = unat (CBData (decode_cfData b))"
      and p: "blk = (decode_cfData b, block)"
      by (rule raw_blocks_Cons)
    show ?thesis
      unfolding mszip_step using r1 r2 len p Nil
      by (simp add: Let_def block_ok_def)
  next
    case (Cons p pre')
    with Suc.prems have "raw_blocks rd (Suc k) = p # (pre' @ blk # post)" by simp
    then obtain b rd1 block rd2 where r1: "ReadFull rd sizeof_cfData = Some (b, rd1)"
      and r2: "Read rd1 (unat (CBData (decode_cfData b))) = (block, False, rd2)"
      and len: "length block = unat (CBData (decode_cfData b))"
      and p: "p = (decode_cfData b, block)" and rest: "pre' @ blk # post = raw_blocks rd2 k"
      by (rule raw_blocks_Cons)
    from Suc.prems(2) Cons p have ok: "block_ok fl history (decode_cfData b, block)"
       and ok': "mszip_blocks_ok fl (fst (mszip_out fl history (decode_cfData b, block))) pre'"
      by auto
    have step: "folderData_blocks fl compMSZIP rd (Suc k) i history buf =
       folderData_blocks fl compMSZIP rd2 k (Suc i)
                      (fst (mszip_out fl history (decode_cfData b, block)))
                      (buf @ fst (mszip_out fl history (decode_cfData b, block)))"
      unfolding mszip_step using r1 r2 len ok by (auto simp: block_ok_def)
    show ?thesis
      unfolding step
      apply (subst Suc.IH[OF rest[symmetric] ok'])
      using Cons p by (simp add: Let_def)
  qed
qed

lemma mszip_outputs_length: "length (mszip_outputs fl dict bs) = length bs"
  by (induction bs arbitrary: dict) auto

lemma mszip_outputs_nth:
  "i < length bs \<Longrightarrow>
   mszip_outputs fl dict bs ! i =
     fst (mszip_out fl (if i = 0 then dict else mszip_outputs fl dict bs ! (i - 1)) (bs ! i))"
proof (induction bs arbitrary: dict i)
  case Nil
  then show ?case by simp
next
  case (Cons b bs)
  show ?case
  proof (cases i)
    case 0
    then show ?thesis by simp
  next
    case (Suc j)
    with Cons.prems have j: "j < length bs" by simp
    show ?thesis
      using Cons.IH[OF j, of "fst (mszip_out fl dict b)"] Suc
      by (cases j) auto
  qed
qed

lemma mszip_blocks_ok_nth:
  "mszip_blocks_ok fl dict bs \<Longrightarrow> i < length bs \<Longrightarrow>
   length (mszip_outputs fl dict bs ! i) = unat (CBUncomp (fst (bs ! i)))"
proof (induction bs arbitrary: dict i)
  case Nil
  then show ?case by simp
next
  case (Cons b bs)
  then show ?case
    by (cases i) (auto simp: block_ok_def)
qed

text \<open>
  C2.  For a folder whose compression field is \<open>compMSZIP\<close>, \<open>folderData\<close> returns a
  buffer exactly when all \<open>CCFData\<close> blocks are delivered and every block is in order
  (signature, exactly \<open>CBUncomp\<close> bytes decoded, no decoder error), and the buffer is the
  concatenation of the per-block outputs in order.  Output \<open>i\<close> is what the decoder yields
  with the empty dictionary for \<open>i = 0\<close> and with output \<open>i - 1\<close> as dictionary otherwise,
  and it has exactly the declared length.  The first block whose decoding, with that
  dictionary, yields another number of bytes than declared makes \<open>folderData\<close> fail with
  \<open>DecompressionFailure\<close> at its index.
\<close>

theorem folderData_mszip_history:
  assumes "unat idx < length (fldrs c)"
    and "TypeCompress (fldrs c ! unat idx) = compMSZIP"
  shows "(\<forall>out. folderData fl c idx = Inr out \<longleftrightarrow>
            length (folder_blocks c idx) = unat (CCFData (fldrs c ! unat idx)) \<and>
            mszip_blocks_ok fl [] (folder_blocks c idx) \<and>
            out = concat (mszip_outputs fl [] (folder_blocks c idx))) \<and>
         (\<forall>i. i < length (folder_blocks c idx) \<longrightarrow>
            mszip_outputs fl [] (folder_blocks c idx) ! i =
              fst (flate_Read fl
                     (if i = 0 then [] else mszip_outputs fl [] (folder_blocks c idx) ! (i - 1))
                     (drop 2 (snd (folder_blocks c idx ! i)))
                     (unat (CBUncomp (fst (folder_blocks c idx ! i)))))) \<and>
         (\<forall>i. mszip_blocks_ok fl [] (folder_blocks c idx) \<and> i < length (folder_blocks c idx) \<longrightarrow>
            length (mszip_outputs fl [] (folder_blocks c idx) ! i) =
              unat (CBUncomp (fst (folder_blocks c idx ! i)))) \<and>
         (\<forall>pre blk post.
            folder_blocks c idx = pre @ blk # post \<and> mszip_blocks_ok fl [] pre \<and>
            2 \<le> length (snd blk) \<and> take 2 (snd blk) = CK \<and>
            length (fst (flate_Read fl (last ([] # mszip_outputs fl [] pre)) (drop 2 (snd blk))
                          (unat (CBUncomp (fst blk))))) \<noteq> unat (CBUncomp (fst blk)) \<longrightarrow>
            folderData fl c idx = Inl (DecompressionFailure (length pre)))"
proof (intro conjI allI impI)
  fix out
  show "folderData fl c idx = Inr out \<longleftrightarrow>
            length (folder_blocks c idx) = unat (CCFData (fldrs c ! unat idx)) \<and>
            mszip_blocks_ok fl [] (folder_blocks c idx) \<and>
            out = concat (mszip_outputs fl [] (folder_blocks c idx))"
    using assms by (simp add: folderData_in_range folder_blocks_def mszip_blocks_Inr)
next
  fix i assume "i < length (folder_blocks c idx)"
  then show "mszip_outputs fl [] (folder_blocks c idx) ! i =
              fst (flate_Read fl
                     (if i = 0 then [] else mszip_outputs fl [] (folder_blocks c idx) ! (i - 1))
                     (drop 2 (snd (folder_blocks c idx ! i)))
                     (unat (CBUncomp (fst (folder_blocks c idx ! i)))))"
    using mszip_outputs_nth[of i "folder_blocks c idx" fl "[]"] by (simp add: mszip_out_def)
next
  fix i assume "mszip_blocks_ok fl [] (folder_blocks c idx) \<and> i < length (folder_blocks c idx)"
  then show "length (mszip_outputs fl [] (folder_blocks c idx) ! i) =
              unat (CBUncomp (fst (folder_blocks c idx ! i)))"
    by (simp add: mszip_blocks_ok_nth)
next
  fix pre blk post
  assume a: "folder_blocks c idx = pre @ blk # post \<and> mszip_blocks_ok fl [] pre \<and>
            2 \<le> length (snd blk) \<and> take 2 (snd blk) = CK \<and>
            length (fst (flate_Read fl (last ([] # mszip_outputs fl [] pre)) (drop 2 (snd blk))
                          (unat (CBUncomp (fst blk))))) \<noteq> unat (CBUncomp (fst blk))"
  then have rb: "raw_blocks (Seek (NewReader (cab_r c)) (unat (COFFCabStart (fldrs c ! unat idx))))
       (unat (CCFData (fldrs c ! unat idx))) = pre @ blk # post"
    and ok: "mszip_blocks_ok fl [] pre"
    by (simp_all add: folder_blocks_def)
  show "folderData fl c idx = Inl (DecompressionFailure (length pre))"
    using assms a
    by (simp add: folderData_in_range mszip_blocks_fail[OF rb ok] Let_def mszip_out_def)
qed

theorem folderData_mszip_history_witness:
  "New src_mszip = Inr cab_mszip \<and> New src_mszip_short = Inr cab_mszip_short \<and>
   folderData copy_inflate cab_mszip 0 = Inr [1, 2, 1, 2, 3] \<and>
   mszip_outputs copy_inflate [] (folder_blocks cab_mszip 0) ! 1 =
     fst (flate_Read copy_inflate [1, 2] [3] 3) \<and>
   folderData copy_inflate cab_mszip_short 0 = Inl (DecompressionFailure 1)"
proof -
  have r1: "unat (0 :: uint16) < length (fldrs cab_mszip)"
    and r2: "unat (0 :: uint16) < length (fldrs cab_mszip_short)"
    by code_simp+
  have t1: "TypeCompress (fldrs cab_mszip ! unat (0 :: uint16)) = compMSZIP"
    and t2: "TypeCompress (fldrs cab_mszip_short ! unat (0 :: uint16)) = compMSZIP"
    by code_simp+
  have len: "length (folder_blocks cab_mszip 0) =
      unat (CCFData (fldrs cab_mszip ! unat (0 :: uint16)))"
    by code_simp
  have ok: "mszip_blocks_ok copy_inflate [] (folder_blocks cab_mszip 0)"
    by code_simp
  have outs: "mszip_outputs copy_inflate [] (folder_blocks cab_mszip 0) = [[1, 2], [1, 2, 3]]"
    by code_simp
  have b1: "folder_blocks cab_mszip 0 ! Suc 0 =
      (\<lparr>Checksum = 0, CBData = 3, CBUncomp = 3\<rparr>, [0x43, 0x4B, 3])"
    and l1: "(1 :: nat) < length (folder_blocks cab_mszip 0)"
    by code_simp+
  have b2: "folder_blocks cab_mszip_short 0 =
      [(\<lparr>Checksum = 0, CBData = 4, CBUncomp = 2\<rparr>, [0x43, 0x4B, 1, 2])] @
       (\<lparr>Checksum = 0, CBData = 3, CBUncomp = 4\<rparr>, [0x43, 0x4B, 3]) # []"
    by code_simp
  have ok2: "mszip_blocks_ok copy_inflate []
      [(\<lparr>Checksum = 0, CBData = 4, CBUncomp = 2\<rparr>, [0x43, 0x4B, 1, 2])]"
    by code_simp
  have short: "length (fst (flate_Read copy_inflate
       (last ([] # mszip_outputs copy_inflate []
          [(\<lparr>Checksum = 0, CBData = 4, CBUncomp = 2\<rparr>, [0x43, 0x4B, 1, 2])]))
       (drop 2 (snd (\<lparr>Checksum = 0, CBData = 3, CBUncomp = 4\<rparr>, [0x43, 0x4B, 3 :: byte])))
       (unat (CBUncomp (fst (\<lparr>Checksum = 0, CBData = 3, CBUncomp = 4\<rparr>, [0x43, 0x4B, 3 :: byte]))))))
     \<noteq> unat (CBUncomp (fst (\<lparr>Checksum = 0, CBData = 3, CBUncomp = 4\<rparr>, [0x43, 0x4B, 3 :: byte])))"
    by code_simp
  have sig: "2 \<le> length (snd (\<lparr>Checksum = 0, CBData = 3, CBUncomp = 4\<rparr>, [0x43, 0x4B, 3 :: byte])) \<and>
     take 2 (snd (\<lparr>Checksum = 0, CBData = 3, CBUncomp = 4\<rparr>, [0x43, 0x4B, 3 :: byte])) = CK"
    by code_simp
  note thm1 = folderData_mszip_history[OF r1 t1, of copy_inflate]
  have "folderData copy_inflate cab_mszip 0 = Inr [1, 2, 1, 2, 3]"
    unfolding thm1[THEN conjunct1, THEN spec]
    by (simp only: ok outs len) simp
  moreover
  have "mszip_outputs copy_inflate [] (folder_blocks cab_mszip 0) ! 1 =
     fst (flate_Read copy_inflate [1, 2] [3] 3)"
    using thm1[THEN conjunct2, THEN conjunct1, THEN spec, of 1, THEN mp, OF l1]
    by (simp add: outs b1)
  moreover
  have "folderData copy_inflate cab_mszip_short 0 = Inl (DecompressionFailure 1)"
    using folderData_mszip_history[OF r2 t2, of copy_inflate, THEN conjunct2, THEN conjunct2,
          THEN conjunct2, THEN spec, THEN spec, THEN spec, THEN mp,
          OF conjI[OF b2 conjI[OF ok2 conjI[OF sig[THEN conjunct1] conjI[OF sig[THEN conjunct2] short]]]]]
    by simp
  ultimately show ?thesis by (simp add: New_concrete)
qed

text \<open>
  C8 at a payload of one byte.  The folder of \<open>cab_short_payload\<close> is MS-ZIP with one block
  whose payload is the single byte \<open>C\<close>, which does not begin with the signature \<open>CK\<close>;
  \<open>folderData\<close> does not return \<open>BadBlockSignature\<close> but panics in \<open>block[:2]\<close>.
\<close>

theorem folderData_short_payload_panics:
  "New src_short_payload = Inr cab_short_payload \<and>
   folder_blocks cab_short_payload 0 = [(\<lparr>Checksum = 0, CBData = 1, CBUncomp = 5\<rparr>, [0x43])] \<and>
   folderData fl cab_short_payload 0 = Inl Panic_SliceBounds"
proof (intro conjI)
  show "New src_short_payload = Inr cab_short_payload"
    by (rule New_concrete)
  show "folder_blocks cab_short_payload 0 = [(\<lparr>Checksum = 0, CBData = 1, CBUncomp = 5\<rparr>, [0x43])]"
    by code_simp
  have r: "unat (0 :: uint16) < length (fldrs cab_short_payload)"
    by code_simp
  have rb: "raw_blocks (Seek (NewReader (cab_r cab_short_payload))
        (unat (COFFCabStart (fldrs cab_short_payload ! unat (0 :: uint16)))))
       (unat (CCFData (fldrs cab_short_payload ! unat (0 :: uint16)))) =
     [] @ (\<lparr>Checksum = 0, CBData = 1, CBUncomp = 5\<rparr>, [0x43]) # []"
    by code_simp
  have tc: "TypeCompress (fldrs cab_short_payload ! unat (0 :: uint16)) = compMSZIP"
    by code_simp
  show "folderData fl cab_short_payload 0 = Inl Panic_SliceBounds"
    unfolding folderData_in_range[OF r] tc
    by (subst mszip_blocks_fail[OF rb]) simp_all
qed

theorem folderData_short_payload_panics_witness:
  "folderData copy_inflate cab_short_payload 0 = Inl Panic_SliceBounds"
  using folderData_short_payload_panics[of copy_inflate] by simp

text \<open>
  Beyond C8: in an MS-ZIP folder whose earlier blocks are in order, a block whose payload
  has at least 2 bytes and does not start with \<open>CK\<close> makes \<open>folderData\<close> fail with
  \<open>BadBlockSignature\<close> at its index; a payload of fewer than 2 bytes makes it panic.
\<close>

theorem folderData_bad_signature:
  assumes "unat idx < length (fldrs c)"
    and "TypeCompress (fldrs c ! unat idx) = compMSZIP"
    and "folder_blocks c idx = pre @ blk # post"
    and "mszip_blocks_ok fl [] pre"
  shows "(2 \<le> length (snd blk) \<and> take 2 (snd blk) \<noteq> CK \<longrightarrow>
            folderData fl c idx = Inl (BadBlockSignature (length pre))) \<and>
         (length (snd blk) < 2 \<longrightarrow> folderData fl c idx = Inl Panic_SliceBounds)"
proof -
  from assms(3) have rb: "raw_blocks (Seek (NewReader (cab_r c)) (unat (COFFCabStart (fldrs c ! unat idx))))
       (unat (CCFData (fldrs c ! unat idx))) = pre @ blk # post"
    by (simp add: folder_blocks_def)
  show ?thesis
    using assms(1,2)
    by (simp add: folderData_in_range mszip_blocks_fail[OF rb assms(4)] Let_def)
qed

theorem folderData_bad_signature_witness:
  "New src_badsig = Inr cab_badsig \<and>
   folderData copy_inflate cab_badsig 0 = Inl (BadBlockSignature 0)"
proof -
  have r: "unat (0 :: uint16) < length (fldrs cab_badsig)"
    and t: "TypeCompress (fldrs cab_badsig ! unat (0 :: uint16)) = compMSZIP"
    and b: "folder_blocks cab_badsig 0 =
      [] @ (\<lparr>Checksum = 0, CBData = 3, CBUncomp = 1\<rparr>, [0x4B, 0x43, 1]) # []"
    and ok: "mszip_blocks_ok copy_inflate [] []"
    by code_simp+
  have sig: "2 \<le> length (snd (\<lparr>Checksum = 0, CBData = 3, CBUncomp = 1\<rparr>, [0x4B, 0x43, 1 :: byte])) \<and>
      take 2 (snd (\<lparr>Checksum = 0, CBData = 3, CBUncomp = 1\<rparr>, [0x4B, 0x43, 1 :: byte])) \<noteq> CK"
    by code_simp
  from folderData_bad_signature[OF r t b ok, THEN conjunct1, THEN mp, OF sig]
  show ?thesis by (simp add: New_concrete)
qed

section \<open>Facts about \<open>Content\<close>\<close>

lemma Read_at:
  "Read (Seek (NewReader buf) off) n =
     (if length buf \<le> off then ([], True, Seek (NewReader buf) off)
      else (take n (drop off buf), False,
            (Seek (NewReader buf) off)\<lparr>rd_i := off + length (take n (drop off buf))\<rparr>))"
  by (simp add: Read_def Seek_def NewReader_def Let_def)

lemma Content_files_no_match:
  "list_all (\<lambda>f. name f \<noteq> nm) fs \<Longrightarrow> Content_files fl c fs nm = Inl (FileNotFound nm)"
  by (induction fs) auto

lemma Content_files_skip:
  "list_all (\<lambda>g. name g \<noteq> nm) pre \<Longrightarrow>
   Content_files fl c (pre @ rest) nm = Content_files fl c rest nm"
  by (induction pre) auto

lemma Content_files_match:
  "name f = nm \<Longrightarrow>
   Content_files fl c (f # post) nm =
     (case folderData fl c (IFolder f) of
        Inl e \<Rightarrow> Inl (FolderDataError (IFolder f) e)
      | Inr buf \<Rightarrow>
          if unat (UOffFolderStart f) < length buf \<and>
             unat (UOffFolderStart f) + unat (CBFile f) \<le> length buf
          then Inr (file_range f buf)
          else if CBFile f = 0 then Inl FileDataRead else Inl OffsetOutOfRange)"
  by (auto simp: Read_at file_range_def unat_eq_0 split: sum.splits)

lemma Content_first:
  assumes "files c = pre @ f # post" and "list_all (\<lambda>g. name g \<noteq> nm) pre" and "name f = nm"
  shows "Content fl c nm =
     (case folderData fl c (IFolder f) of
        Inl e \<Rightarrow> Inl (FolderDataError (IFolder f) e)
      | Inr buf \<Rightarrow>
          if unat (UOffFolderStart f) < length buf \<and>
             unat (UOffFolderStart f) + unat (CBFile f) \<le> length buf
          then Inr (file_range f buf)
          else if CBFile f = 0 then Inl FileDataRead else Inl OffsetOutOfRange)"
  unfolding Content_def assms(1) Content_files_skip[OF assms(2)]
  by (rule Content_files_match[OF assms(3)])

text \<open>
  C1.  \<open>Content\<close> scans the file table in order.  When no entry has the name, it fails
  with \<open>FileNotFound\<close>.  Otherwise the first entry with the name decides, whatever
  follows it: the result is never \<open>FileNotFound\<close>, and \<open>Content\<close> returns bytes exactly
  when that entry's folder decompresses to a buffer that holds the entry's range, and the
  bytes are then that range \<open>[fileOffset, fileOffset + fileSize)\<close> of the buffer, of full
  length.
\<close>

theorem Content_first_match:
  "(list_all (\<lambda>f. name f \<noteq> nm) (files c) \<longrightarrow> Content fl c nm = Inl (FileNotFound nm)) \<and>
   (\<forall>pre f post.
      files c = pre @ f # post \<and> list_all (\<lambda>g. name g \<noteq> nm) pre \<and> name f = nm \<longrightarrow>
      Content fl c nm \<noteq> Inl (FileNotFound nm) \<and>
      (\<forall>blob. Content fl c nm = Inr blob \<longleftrightarrow>
         (\<exists>buf. folderData fl c (IFolder f) = Inr buf \<and>
                unat (UOffFolderStart f) < length buf \<and>
                unat (UOffFolderStart f) + unat (CBFile f) \<le> length buf \<and>
                blob = file_range f buf)) \<and>
      (\<forall>blob. Content fl c nm = Inr blob \<longrightarrow> length blob = unat (CBFile f)))"
proof (intro conjI allI impI)
  assume "list_all (\<lambda>f. name f \<noteq> nm) (files c)"
  then show "Content fl c nm = Inl (FileNotFound nm)"
    by (simp add: Content_def Content_files_no_match)
next
  fix pre f post
  assume "files c = pre @ f # post \<and> list_all (\<lambda>g. name g \<noteq> nm) pre \<and> name f = nm"
  then have eq: "Content fl c nm =
     (case folderData fl c (IFolder f) of
        Inl e \<Rightarrow> Inl (FolderDataError (IFolder f) e)
      | Inr buf \<Rightarrow>
          if unat (UOffFolderStart f) < length buf \<and>
             unat (UOffFolderStart f) + unat (CBFile f) \<le> length buf
          then Inr (file_range f buf)
          else if CBFile f = 0 then Inl FileDataRead else Inl OffsetOutOfRange)"
    using Content_first by blast
  show "Content fl c nm \<noteq> Inl (FileNotFound nm)"
    unfolding eq by (simp split: sum.splits)
  show "\<And>blob. Content fl c nm = Inr blob \<longleftrightarrow>
         (\<exists>buf. folderData fl c (IFolder f) = Inr buf \<and>
                unat (UOffFolderStart f) < length buf \<and>
                unat (UOffFolderStart f) + unat (CBFile f) \<le> length buf \<and>
                blob = file_range f buf)"
    unfolding eq by (auto split: sum.splits)
  show "\<And>blob. Content fl c nm = Inr blob \<Longrightarrow> length blob = unat (CBFile f)"
    unfolding eq by (auto simp: file_range_def split: sum.splits if_splits)
qed

theorem Content_first_match_witness:
  "New src_two = Inr cab_two \<and>
   Content copy_inflate cab_two [0x61] = Inr [0x61, 0x62] \<and>
   Content copy_inflate cab_two [0x71] = Inl (FileNotFound [0x71])"
proof -
  have absent: "list_all (\<lambda>f. name f \<noteq> [0x71]) (files cab_two)"
    by code_simp
  have first: "files cab_two = [] @ file_a # [file_b, file_a2, file_z] \<and>
      list_all (\<lambda>g. name g \<noteq> [0x61]) [] \<and> name file_a = [0x61]"
    by code_simp
  have buf: "folderData copy_inflate cab_two (IFolder file_a) = Inr [0x61, 0x62, 0x63] \<and>
      unat (UOffFolderStart file_a) < length [0x61, 0x62, 0x63 :: byte] \<and>
      unat (UOffFolderStart file_a) + unat (CBFile file_a) \<le> length [0x61, 0x62, 0x63 :: byte] \<and>
      [0x61, 0x62] = file_range file_a [0x61, 0x62, 0x63]"
    by code_simp
  have "Content copy_inflate cab_two [0x61] = Inr [0x61, 0x62]"
    unfolding Content_first_match[of "[0x61]" cab_two copy_inflate, THEN conjunct2,
        THEN spec, THEN spec, THEN spec, THEN mp, OF first, THEN conjunct2, THEN conjunct1, THEN spec]
    using buf by blast
  moreover have "Content copy_inflate cab_two [0x71] = Inl (FileNotFound [0x71])"
    using Content_first_match[of "[0x71]" cab_two copy_inflate, THEN conjunct1, THEN mp, OF absent] .
  ultimately show ?thesis by (simp add: New_concrete)
qed

text \<open>
  C6 at an empty file at the end of its folder.  In \<open>cab_two\<close> the entry \<open>z\<close> has size 0
  and offset 2 in folder 1, which decompresses to the two bytes \<open>de\<close>: offset plus size
  equals the length and does not exceed it, yet \<open>Content\<close> fails, with the error of the
  branch \<open>else if err != nil\<close> (the \<open>io.EOF\<close> of a read at the end of the buffer).
\<close>

theorem Content_empty_file_at_end:
  "New src_two = Inr cab_two \<and>
   files cab_two = [file_a, file_b, file_a2] @ file_z # [] \<and> name file_z = [0x7A] \<and>
   folderData fl cab_two (IFolder file_z) = Inr [0x64, 0x65] \<and>
   unat (UOffFolderStart file_z) + unat (CBFile file_z) = length [0x64, 0x65 :: byte] \<and>
   Content fl cab_two [0x7A] = Inl FileDataRead"
  by code_simp

theorem Content_empty_file_at_end_witness:
  "Content copy_inflate cab_two [0x7A] = Inl FileDataRead"
  using Content_empty_file_at_end[of copy_inflate] by simp

text \<open>
  Beyond C6: for the first entry with the requested name, in a folder that decompresses
  to \<open>buf\<close>, \<open>Content\<close> fails exactly when offset plus size exceeds the length of
  \<open>buf\<close>, or the size is 0 and the offset equals that length; otherwise it returns the
  entry's range.
\<close>

theorem Content_fails_iff:
  assumes "files c = pre @ f # post" and "list_all (\<lambda>g. name g \<noteq> nm) pre" and "name f = nm"
    and "folderData fl c (IFolder f) = Inr buf"
  shows "((\<exists>e. Content fl c nm = Inl e) \<longleftrightarrow>
           length buf < unat (UOffFolderStart f) + unat (CBFile f) \<or>
           (CBFile f = 0 \<and> unat (UOffFolderStart f) = length buf)) \<and>
         ((\<forall>e. Content fl c nm \<noteq> Inl e) \<longrightarrow> Content fl c nm = Inr (file_range f buf))"
proof -
  have z: "CBFile f = 0 \<longleftrightarrow> unat (CBFile f) = 0"
    by (simp add: unat_eq_0)
  show ?thesis
    unfolding Content_first[OF assms(1,2,3)] assms(4) z
    by auto
qed

theorem Content_fails_iff_witness:
  "(\<exists>e. Content copy_inflate cab_two [0x7A] = Inl e) \<and>
   Content copy_inflate cab_two [0x62] = Inr [0x63]"
proof -
  have z: "files cab_two = [file_a, file_b, file_a2] @ file_z # []"
    "list_all (\<lambda>g. name g \<noteq> [0x7A]) [file_a, file_b, file_a2]" "name file_z = [0x7A]"
    "folderData copy_inflate cab_two (IFolder file_z) = Inr [0x64, 0x65]"
    by code_simp+
  have zc: "CBFile file_z = 0 \<and> unat (UOffFolderStart file_z) = length [0x64, 0x65 :: byte]"
    by code_simp
  have b: "files cab_two = [file_a] @ file_b # [file_a2, file_z]"
    "list_all (\<lambda>g. name g \<noteq> [0x62]) [file_a]" "name file_b = [0x62]"
    "folderData copy_inflate cab_two (IFolder file_b) = Inr [0x61, 0x62, 0x63]"
    by code_simp+
  have bc: "\<not> (length [0x61, 0x62, 0x63 :: byte] < unat (UOffFolderStart file_b) + unat (CBFile file_b) \<or>
           (CBFile file_b = 0 \<and> unat (UOffFolderStart file_b) = length [0x61, 0x62, 0x63 :: byte]))"
    and br: "file_range file_b [0x61, 0x62, 0x63] = [0x63]"
    by code_simp+
  from Content_fails_iff[OF z, THEN conjunct1] zc
  have "\<exists>e. Content copy_inflate cab_two [0x7A] = Inl e" by blast
  moreover
  from Content_fails_iff[OF b] bc
  have "Content copy_inflate cab_two [0x62] = Inr (file_range file_b [0x61, 0x62, 0x63])" by blast
  ultimately show ?thesis by (simp add: br)
qed

section \<open>Facts about \<open>Next\<close>\<close>














section \<open>Facts about \<open>New\<close>\<close>

lemma ReadFull_rec:
  "ReadFull \<lparr>rd_s = src, rd_i = p\<rparr> n =
     (if p + n \<le> length src then Some (take n (drop p src), \<lparr>rd_s = src, rd_i = p + n\<rparr>) else None)"
  by (simp add: ReadFull_def)

lemma New_folders_readable:
  assumes "sizeof_cfHeader + sizeof_cfFolder * (i + k) \<le> length src"
    and "list_all supported (map (folder_at src) [i..<i + k])"
  shows "New_folders \<lparr>rd_s = src, rd_i = sizeof_cfHeader + sizeof_cfFolder * i\<rparr> k i acc =
     Inr (acc @ map (folder_at src) [i..<i + k],
          \<lparr>rd_s = src, rd_i = sizeof_cfHeader + sizeof_cfFolder * (i + k)\<rparr>)"
  using assms
proof (induction k arbitrary: i acc)
  case 0
  then show ?case by simp
next
  case (Suc k)
  have fits: "sizeof_cfHeader + sizeof_cfFolder * i + sizeof_cfFolder \<le> length src"
    using Suc.prems(1) by (simp add: algebra_simps)
  have up: "[i..<i + Suc k] = i # [Suc i..<Suc i + k]"
    by (simp add: upt_conv_Cons)
  from Suc.prems(2) have sup: "supported (folder_at src i)"
    and rest: "list_all supported (map (folder_at src) [Suc i..<Suc i + k])"
    unfolding up by simp_all
  have ih: "New_folders \<lparr>rd_s = src, rd_i = sizeof_cfHeader + sizeof_cfFolder * Suc i\<rparr> k (Suc i)
       (acc @ [folder_at src i]) =
     Inr ((acc @ [folder_at src i]) @ map (folder_at src) [Suc i..<Suc i + k],
          \<lparr>rd_s = src, rd_i = sizeof_cfHeader + sizeof_cfFolder * (Suc i + k)\<rparr>)"
    apply (rule Suc.IH)
    using Suc.prems(1) rest by simp_all
  have pos: "sizeof_cfHeader + sizeof_cfFolder * i + sizeof_cfFolder =
      sizeof_cfHeader + sizeof_cfFolder * Suc i"
    by simp
  have sup': "TypeCompress (folder_at src i) AND compMask = compNone \<or>
      TypeCompress (folder_at src i) AND compMask = compMSZIP"
    using sup by (simp add: supported_def)
  have dec: "decode_cfFolder (take sizeof_cfFolder
      (drop (sizeof_cfHeader + sizeof_cfFolder * i) src)) = folder_at src i"
    by (simp add: folder_at_def)
  show ?case
    unfolding New_folders.simps ReadFull_rec
    using fits sup'
    by (simp only: if_True option.case prod.case Let_def dec pos ih up) simp
qed

lemma New_files_readable:
  "files_readable src p k \<Longrightarrow> \<exists>fl. New_files \<lparr>rd_s = src, rd_i = p\<rparr> k i acc = Inr fl"
proof (induction k arbitrary: p i acc)
  case 0
  then show ?case by simp
next
  case (Suc k)
  from Suc.prems have len: "p + sizeof_cfFile \<le> length src"
    by simp
  from Suc.prems obtain fn where
    fnm: "ReadBytes (drop (p + sizeof_cfFile) src) 0 = Some fn"
    and rest: "files_readable src (p + sizeof_cfFile + length fn) k"
    by (auto split: option.splits)
  from Suc.IH[OF rest] show ?case
    using len fnm by (simp add: ReadFull_rec Let_def Seek_def)
qed

text \<open>
  C3.  Let the source hold a complete header \<open>h\<close>, after it \<open>CFolders h\<close> complete folder
  records whose low-4-bit compression tags are supported, and at \<open>COFFFiles h\<close> a complete
  file table of \<open>CFiles h\<close> records with NUL-terminated names.  Then \<open>New\<close> returns an
  error if and only if the signature is not \<open>MSCF\<close>, or the version is not 1.3, or one of
  the three reserved fields is nonzero, or the previous-cabinet or next-cabinet flag is
  set; and the error is the one of the first check that fails.
\<close>

theorem New_rejects_iff:
  assumes "sizeof_cfHeader \<le> length src"
    and "h = decode_cfHeader (take sizeof_cfHeader src)"
    and "folders_readable src (unat (CFolders h))"
    and "files_readable src (unat (COFFFiles h)) (unat (CFiles h))"
  shows "((\<exists>e. New src = Inl e) \<longleftrightarrow>
            Signature h \<noteq> MSCF \<or>
            (VersionMajor h \<noteq> 1 \<or> VersionMinor h \<noteq> 3) \<or>
            (Reserved1 h \<noteq> 0 \<or> Reserved2 h \<noteq> 0 \<or> Reserved3 h \<noteq> 0) \<or>
            (Flags h AND hdrPrevCabinet \<noteq> 0 \<or> Flags h AND hdrNextCabinet \<noteq> 0)) \<and>
         (\<forall>e. New src = Inl e \<longrightarrow>
            e = BadSignature \<or> e = UnsupportedVersion \<or> e = ReservedFieldViolation \<or>
            e = UnsupportedMultiPart)"
proof -
  have rd0: "Seek (NewReader src) 0 = \<lparr>rd_s = src, rd_i = 0\<rparr>"
    by (simp add: Seek_def NewReader_def)
  have rf: "ReadFull \<lparr>rd_s = src, rd_i = 0\<rparr> sizeof_cfHeader =
      Some (take sizeof_cfHeader src, \<lparr>rd_s = src, rd_i = sizeof_cfHeader + sizeof_cfFolder * 0\<rparr>)"
    using assms(1) by (simp add: ReadFull_rec)
  from assms(3) have
    "sizeof_cfHeader + sizeof_cfFolder * (0 + unat (CFolders h)) \<le> length src"
    and "list_all supported (map (folder_at src) [0..<0 + unat (CFolders h)])"
    by (simp_all add: folders_readable_def)
  from New_folders_readable[OF this, of "[]"]
  have nf: "New_folders \<lparr>rd_s = src, rd_i = sizeof_cfHeader + sizeof_cfFolder * 0\<rparr>
       (unat (CFolders h)) 0 [] =
     Inr (map (folder_at src) [0..<unat (CFolders h)],
          \<lparr>rd_s = src, rd_i = sizeof_cfHeader + sizeof_cfFolder * unat (CFolders h)\<rparr>)"
    by simp
  have sk: "Seek \<lparr>rd_s = src, rd_i = sizeof_cfHeader + sizeof_cfFolder * unat (CFolders h)\<rparr>
       (unat (COFFFiles h)) = \<lparr>rd_s = src, rd_i = unat (COFFFiles h)\<rparr>"
    by (simp add: Seek_def)
  from New_files_readable[OF assms(4), of 0 "[]"]
  obtain fl where fl: "New_files \<lparr>rd_s = src, rd_i = unat (COFFFiles h)\<rparr> (unat (CFiles h)) 0 [] = Inr fl"
    by blast
  have New_eq: "New src =
     (if Signature h \<noteq> MSCF then Inl BadSignature
      else if Reserved1 h \<noteq> 0 \<or> Reserved2 h \<noteq> 0 \<or> Reserved3 h \<noteq> 0
        then Inl ReservedFieldViolation
      else if VersionMajor h \<noteq> 1 \<or> VersionMinor h \<noteq> 3 then Inl UnsupportedVersion
      else if Flags h AND hdrPrevCabinet \<noteq> 0 \<or> Flags h AND hdrNextCabinet \<noteq> 0
        then Inl UnsupportedMultiPart
      else Inr \<lparr>cab_r = src, hdr = h, fldrs = map (folder_at src) [0..<unat (CFolders h)],
                files = fl, nextIdx = 0, nextRdr = None\<rparr>)"
    unfolding New_def rd0 Let_def rf option.case prod.case assms(2)[symmetric] nf sum.case sk fl
    by (rule refl)
  show ?thesis
    unfolding New_eq by auto
qed

theorem New_rejects_iff_witness:
  "(\<forall>e. New src_valid \<noteq> Inl e) \<and> (\<exists>e. New src_badmagic = Inl e)"
proof -
  let ?h = "decode_cfHeader (take sizeof_cfHeader src_valid)"
  let ?g = "decode_cfHeader (take sizeof_cfHeader src_badmagic)"
  have h1: "sizeof_cfHeader \<le> length src_valid"
    and h2: "folders_readable src_valid (unat (CFolders ?h))"
    and h3: "files_readable src_valid (unat (COFFFiles ?h)) (unat (CFiles ?h))"
    by code_simp+
  have ok: "\<not> (Signature ?h \<noteq> MSCF \<or>
            (VersionMajor ?h \<noteq> 1 \<or> VersionMinor ?h \<noteq> 3) \<or>
            (Reserved1 ?h \<noteq> 0 \<or> Reserved2 ?h \<noteq> 0 \<or> Reserved3 ?h \<noteq> 0) \<or>
            (Flags ?h AND hdrPrevCabinet \<noteq> 0 \<or> Flags ?h AND hdrNextCabinet \<noteq> 0))"
    by code_simp
  have g1: "sizeof_cfHeader \<le> length src_badmagic"
    and g2: "folders_readable src_badmagic (unat (CFolders ?g))"
    and g3: "files_readable src_badmagic (unat (COFFFiles ?g)) (unat (CFiles ?g))"
    by code_simp+
  have bad: "Signature ?g \<noteq> MSCF"
    by code_simp
  from New_rejects_iff[OF h1 refl h2 h3, THEN conjunct1] ok
  have "\<forall>e. New src_valid \<noteq> Inl e" by blast
  moreover
  from New_rejects_iff[OF g1 refl g2 g3, THEN conjunct1] bad
  have "\<exists>e. New src_badmagic = Inl e" by blast
  ultimately show ?thesis by simp
qed

text \<open>
  C7 at a folder whose compression field is \<open>0x0010\<close>.  \<open>New\<close> accepts \<open>src_highbits\<close>,
  because it inspects \<open>TypeCompress & compMask\<close>, which is \<open>compNone\<close>; \<open>folderData\<close>
  switches on the whole field and reaches its \<open>default\<close> branch on the first block.
\<close>

theorem folderData_unsupported_after_New:
  "(case New src_highbits of
      Inl e \<Rightarrow> False
    | Inr c \<Rightarrow>
        length (fldrs c) = 1 \<and> TypeCompress (fldrs c ! 0) = 0x10 \<and>
        TypeCompress (fldrs c ! 0) AND compMask = compNone \<and>
        folderData fl c 0 = Inl UnsupportedCompressionData)"
  by code_simp

theorem folderData_unsupported_after_New_witness:
  "(case New src_highbits of
      Inl e \<Rightarrow> False
    | Inr c \<Rightarrow>
        length (fldrs c) = 1 \<and> TypeCompress (fldrs c ! 0) = 0x10 \<and>
        TypeCompress (fldrs c ! 0) AND compMask = compNone \<and>
        folderData copy_inflate c 0 = Inl UnsupportedCompressionData)"
  using folderData_unsupported_after_New[of copy_inflate] .

lemma blocks_never_unsupported:
  "tc = compNone \<or> tc = compMSZIP \<Longrightarrow>
   folderData_blocks fl tc rd k i history buf \<noteq> Inl UnsupportedCompressionData"
proof (induction k arbitrary: rd i history buf)
  case 0
  then show ?case by simp
next
  case (Suc k)
  then show ?case
    by (auto simp: Let_def split: option.splits prod.splits)
qed

lemma New_folders_supported:
  "New_folders rd k i acc = Inr (fs, rd') \<Longrightarrow> list_all supported acc \<Longrightarrow> list_all supported fs"
proof (induction k arbitrary: rd i acc)
  case 0
  then show ?case by simp
next
  case (Suc k)
  then show ?case
    by (auto simp: Let_def supported_def split: option.splits prod.splits if_splits)
qed

lemma New_supported: "New src = Inr c \<Longrightarrow> list_all supported (fldrs c)"
  by (auto simp: New_def Let_def split: option.splits prod.splits if_splits sum.splits
      dest: New_folders_supported)

text \<open>
  Beyond C7: for a Cabinet that \<open>New\<close> returned, a folder whose compression field has
  no bit above the low four never makes \<open>folderData\<close> fail with the error of its
  \<open>default\<close> branch.
\<close>

theorem folderData_supported_without_high_bits:
  assumes "New src = Inr c" and "unat idx < length (fldrs c)"
    and "TypeCompress (fldrs c ! unat idx) AND compMask = TypeCompress (fldrs c ! unat idx)"
  shows "folderData fl c idx \<noteq> Inl UnsupportedCompressionData"
proof -
  from New_supported[OF assms(1)] assms(2) have "supported (fldrs c ! unat idx)"
    by (simp add: list_all_length)
  with assms(3) have "TypeCompress (fldrs c ! unat idx) = compNone \<or>
      TypeCompress (fldrs c ! unat idx) = compMSZIP"
    by (simp add: supported_def)
  from blocks_never_unsupported[OF this] show ?thesis
    using assms(2) by (simp add: folderData_in_range)
qed

theorem folderData_supported_without_high_bits_witness:
  "New src_two = Inr cab_two \<and> folderData copy_inflate cab_two 1 \<noteq> Inl UnsupportedCompressionData"
proof -
  have r: "unat (1 :: uint16) < length (fldrs cab_two)"
    and t: "TypeCompress (fldrs cab_two ! unat (1 :: uint16)) AND compMask =
      TypeCompress (fldrs cab_two ! unat (1 :: uint16))"
    by code_simp+
  from folderData_supported_without_high_bits[OF New_concrete(6) r t, of copy_inflate]
  show ?thesis by (simp add: New_concrete)
qed

section \<open>Facts about \<open>CompareVersions\<close>\<close>

lemma CompareVersions_range: "CompareVersions v1 v2 \<in> {-1, 0, 1}"
  by (auto simp: CompareVersions_def Version_Compare_def strings_Compare_def split: option.splits)

text \<open>
  C9.  When both strings parse as three-component versions, \<open>CompareVersions\<close> is the
  component-wise numeric comparison of the two; when one of them does not parse, it is
  the byte-wise lexicographic comparison of the strings; the result is always -1, 0 or 1;
  and the five comparisons the specification lists have the values it gives.
\<close>

theorem CompareVersions_structured_or_lexicographic:
  "(\<forall>s1 s2. semver_Make v1 = Some s1 \<and> semver_Make v2 = Some s2 \<longrightarrow>
      CompareVersions v1 v2 = Version_Compare s1 s2) \<and>
   (semver_Make v1 = None \<or> semver_Make v2 = None \<longrightarrow>
      CompareVersions v1 v2 = strings_Compare v1 v2) \<and>
   CompareVersions v1 v2 \<in> {-1, 0, 1} \<and>
   CompareVersions ''1.0.0'' ''1.0.1'' = -1 \<and>
   CompareVersions ''1.0.0'' ''1.0.0'' = 0 \<and>
   CompareVersions ''123'' ''100'' = 1 \<and>
   CompareVersions ''12'' ''9'' = -1 \<and>
   CompareVersions ''RQR12.07_B0030'' ''RQR12.07_B0029'' = 1"
proof (intro conjI allI impI)
  fix s1 s2 assume "semver_Make v1 = Some s1 \<and> semver_Make v2 = Some s2"
  then show "CompareVersions v1 v2 = Version_Compare s1 s2"
    by (simp add: CompareVersions_def)
next
  assume "semver_Make v1 = None \<or> semver_Make v2 = None"
  then show "CompareVersions v1 v2 = strings_Compare v1 v2"
    by (auto simp: CompareVersions_def split: option.splits)
next
  show "CompareVersions v1 v2 \<in> {-1, 0, 1}"
    by (rule CompareVersions_range)
next
  show "CompareVersions ''1.0.0'' ''1.0.1'' = -1"
    by code_simp
  show "CompareVersions ''1.0.0'' ''1.0.0'' = 0"
    by code_simp
  show "CompareVersions ''123'' ''100'' = 1"
    by code_simp
  show "CompareVersions ''12'' ''9'' = -1"
    by code_simp
  show "CompareVersions ''RQR12.07_B0030'' ''RQR12.07_B0029'' = 1"
    by code_simp
qed

theorem CompareVersions_structured_or_lexicographic_witness:
  "CompareVersions ''1.2.10'' ''1.2.9'' = 1 \<and> strings_Compare ''1.2.10'' ''1.2.9'' = -1 \<and>
   CompareVersions ''0.9'' ''1.0'' = -1 \<and> semver_Make ''0.9'' = None"
proof -
  have p: "semver_Make ''1.2.10'' = Some \<lparr>Major = 1, Minor = 2, Patch = 10\<rparr> \<and>
      semver_Make ''1.2.9'' = Some \<lparr>Major = 1, Minor = 2, Patch = 9\<rparr>"
    by code_simp
  have v: "Version_Compare \<lparr>Major = 1, Minor = 2, Patch = 10\<rparr> \<lparr>Major = 1, Minor = 2, Patch = 9\<rparr> = 1"
    by code_simp
  have n: "semver_Make ''0.9'' = None \<or> semver_Make ''1.0'' = None"
    by code_simp
  have n': "semver_Make ''0.9'' = None"
    by code_simp
  have l: "strings_Compare ''0.9'' ''1.0'' = -1" "strings_Compare ''1.2.10'' ''1.2.9'' = -1"
    by code_simp+
  from CompareVersions_structured_or_lexicographic[of "''1.2.10''" "''1.2.9''",
      THEN conjunct1, THEN spec, THEN spec, THEN mp, OF p]
  have "CompareVersions ''1.2.10'' ''1.2.9'' = 1"
    by (simp only: v)
  moreover
  from CompareVersions_structured_or_lexicographic[of "''0.9''" "''1.0''",
      THEN conjunct2, THEN conjunct1, THEN mp, OF n]
  have "CompareVersions ''0.9'' ''1.0'' = -1"
    by (simp only: l)
  ultimately show ?thesis
    using l n' by simp
qed

end
